theory Spec2Isabelle
  imports Complex_Main
begin

section \<open>The static complexity estimator of the playground\<close>

text \<open>
  The estimator is a handful of closures inside the playground's React component:
  \<^verbatim>\<open>analyzeComplexity\<close>, \<^verbatim>\<open>analyzeNestedLoops\<close>, \<^verbatim>\<open>analyzeRecursion\<close>,
  \<^verbatim>\<open>analyzeDataStructures\<close>, \<^verbatim>\<open>generateComplexityData\<close> and \<^verbatim>\<open>factorial\<close>.
  They read the editor text and nothing else, so each becomes a HOL function of the
  text. A JavaScript string is modelled as a \<^typ>\<open>string\<close>, one \<^typ>\<open>char\<close>
  per code unit (code units below 256); the class names of the source, which contain
  the superscripts two and three, are spelled with their code units.
\<close>

subsection \<open>Strings\<close>

text \<open>\<^verbatim>\<open>s.startsWith(p)\<close> and \<^verbatim>\<open>s.includes(p)\<close>.\<close>

fun startsWith :: "string \<Rightarrow> string \<Rightarrow> bool" where
  "startsWith s [] = True"
| "startsWith [] (p # ps) = False"
| "startsWith (c # cs) (p # ps) = (c = p \<and> startsWith cs ps)"

fun includesStr :: "string \<Rightarrow> string \<Rightarrow> bool" where
  "includesStr [] p = startsWith [] p"
| "includesStr (c # cs) p = (startsWith (c # cs) p \<or> includesStr cs p)"

text \<open>
  The white space of \<^verbatim>\<open>trim()\<close> and of the class \<^verbatim>\<open>\s\<close> (the same set in
  ECMAScript), as far as it lies below 256: tab, line feed, vertical tab, form feed,
  carriage return, space and the no-break space. The class \<^verbatim>\<open>\w\<close> is
  \<^verbatim>\<open>[A-Za-z0-9_]\<close>.
\<close>

definition isSpace :: "char \<Rightarrow> bool" where
  "isSpace c = (c = CHR 0x09 \<or> c = CHR 0x0A \<or> c = CHR 0x0B \<or> c = CHR 0x0C \<or> c = CHR 0x0D
                \<or> c = CHR 0x20 \<or> c = CHR 0xA0)"

definition isWord :: "char \<Rightarrow> bool" where
  "isWord c = (let k = (of_char c :: nat) in
                 (48 \<le> k \<and> k \<le> 57) \<or> (65 \<le> k \<and> k \<le> 90) \<or> k = 95 \<or> (97 \<le> k \<and> k \<le> 122))"

definition trim :: "string \<Rightarrow> string" where
  "trim s = rev (dropWhile isSpace (rev (dropWhile isSpace s)))"

text \<open>\<^verbatim>\<open>s.split('\n')\<close>: the pieces between line feeds; the empty text has one empty piece.\<close>

fun split :: "string \<Rightarrow> string list" where
  "split [] = [[]]"
| "split (c # cs) =
     (if c = CHR 0x0A then [] # split cs
      else (case split cs of [] \<Rightarrow> [[c]] | l # ls \<Rightarrow> (c # l) # ls))"

text \<open>\<^verbatim>\<open>xs.join(sep)\<close> on an array of strings.\<close>

fun join :: "string \<Rightarrow> string list \<Rightarrow> string" where
  "join sep [] = []"
| "join sep [s] = s"
| "join sep (s # t # ts) = s @ sep @ join sep (t # ts)"

text \<open>The decimal numeral of a whole number, as a template literal prints it.\<close>

function showNat :: "nat \<Rightarrow> string" where
  "showNat n = (if n < 10 then [char_of (48 + n)] else showNat (n div 10) @ [char_of (48 + n mod 10)])"
  by pat_completeness auto
termination
  by (relation "measure id") auto

declare showNat.simps [simp del]

definition showInt :: "int \<Rightarrow> string" where
  "showInt i = (if i < 0 then ''-'' @ showNat (nat (- i)) else showNat (nat i))"

subsection \<open>The growth curve\<close>

text \<open>
  \<^verbatim>\<open>
  const factorial = (n: number): number => {
    if (n <= 1) return 1;
    return n * factorial(n - 1);
  };
  \<close>
  The generator calls it with whole numbers only; the model takes an integer.
\<close>

function factorial :: "int \<Rightarrow> int" where
  "factorial n = (if n \<le> 1 then 1 else n * factorial (n - 1))"
  by pat_completeness auto
termination
  by (relation "measure nat") auto

declare factorial.simps [simp del]

definition O_1 :: string where "O_1 = ''O(1)''"
definition O_log_n :: string where "O_log_n = ''O(log n)''"
definition O_n :: string where "O_n = ''O(n)''"
definition O_n_log_n :: string where "O_n_log_n = ''O(n log n)''"
definition O_n2 :: string where "O_n2 = ''O(n'' @ [CHR 0xB2] @ '')''"
definition O_n3 :: string where "O_n3 = ''O(n'' @ [CHR 0xB3] @ '')''"
definition O_2n :: string where "O_2n = ''O(2^n)''"
definition O_nfact :: string where "O_nfact = ''O(n!)''"
definition O_unknown :: string where "O_unknown = ''O(?)''"

record point =
  x :: int
  y :: real

text \<open>
  The \<^verbatim>\<open>switch\<close> of \<^verbatim>\<open>generateComplexityData\<close>: the value of \<^verbatim>\<open>y\<close> for one
  \<^verbatim>\<open>n\<close>, before the cap. \<^verbatim>\<open>Math.log2\<close> is the real logarithm to base two (the
  rounding of the floating-point result is not modelled), \<^verbatim>\<open>Math.pow(2, k)\<close> the power.
\<close>

definition operations :: "string \<Rightarrow> int \<Rightarrow> real" where
  "operations complexity n =
     (if complexity = O_1 then 1
      else if complexity = O_log_n then log 2 (real_of_int n)
      else if complexity = O_n then real_of_int n
      else if complexity = O_n_log_n then real_of_int n * log 2 (real_of_int n)
      else if complexity = O_n2 then real_of_int (n * n)
      else if complexity = O_n3 then real_of_int (n * n * n)
      else if complexity = O_2n then 2 ^ nat (min n 6)
      else if complexity = O_nfact then real_of_int (factorial (min n 6))
      else real_of_int n)"

text \<open>
  \<^verbatim>\<open>
  for (let n = 1; n <= 10; n++) { ...; data.push({ x: n, y: Math.min(y, 1000) }); }
  \<close>
\<close>

function generateLoop :: "string \<Rightarrow> int \<Rightarrow> point list \<Rightarrow> point list" where
  "generateLoop complexity n data =
     (if n \<le> 10
      then generateLoop complexity (n + 1)
             (data @ [\<lparr>x = n, y = min (operations complexity n) 1000\<rparr>])
      else data)"
  by pat_completeness auto
termination
  by (relation "measure (\<lambda>(c, n, d). nat (11 - n))") auto

declare generateLoop.simps [simp del]

definition generateComplexityData :: "string \<Rightarrow> point list" where
  "generateComplexityData complexity = generateLoop complexity 1 []"

subsection \<open>Loop nesting\<close>

text \<open>
  \<^verbatim>\<open>
  const analyzeNestedLoops = (code: string) => {
    const lines = code.split('\n');
    let maxNesting = 0;
    let currentNesting = 0;
    for (const line of lines) {
      const trimmed = line.trim();
      if (trimmed.startsWith('for ') || trimmed.startsWith('while ')) {
        currentNesting++;
        maxNesting = Math.max(maxNesting, currentNesting);
      } else if (trimmed === '' || (!trimmed.startsWith(' ') && currentNesting > 0)) {
        // Reset nesting when we exit scope (simplified)
        currentNesting = Math.max(0, currentNesting - 1);
      }
    }
    return { count: maxNesting };
  };
  \<close>
  The state of the loop is the pair \<open>(maxNesting, currentNesting)\<close>.
\<close>

record loops =
  count :: int

definition isLoopStart :: "string \<Rightarrow> bool" where
  "isLoopStart line = (let trimmed = trim line in
                         startsWith trimmed ''for '' \<or> startsWith trimmed ''while '')"

definition nestingStep :: "string \<Rightarrow> int \<times> int \<Rightarrow> int \<times> int" where
  "nestingStep line st =
     (case st of (maxNesting, currentNesting) \<Rightarrow>
        let trimmed = trim line in
        if startsWith trimmed ''for '' \<or> startsWith trimmed ''while ''
        then (max maxNesting (currentNesting + 1), currentNesting + 1)
        else if trimmed = [] \<or> (\<not> startsWith trimmed '' '' \<and> currentNesting > 0)
        then (maxNesting, max 0 (currentNesting - 1))
        else (maxNesting, currentNesting))"

fun nestingLoop :: "string list \<Rightarrow> int \<times> int \<Rightarrow> int \<times> int" where
  "nestingLoop [] st = st"
| "nestingLoop (line # lines) st = nestingLoop lines (nestingStep line st)"

definition analyzeNestedLoops :: "string \<Rightarrow> loops" where
  "analyzeNestedLoops code = \<lparr>count = fst (nestingLoop (split code) (0, 0))\<rparr>"

subsection \<open>Data structures\<close>

text \<open>
  \<^verbatim>\<open>
  if (code.includes('list(') || code.includes('[]')) structures.push("List");
  if (code.includes('dict(') || code.includes('{}')) structures.push("Dictionary");
  if (code.includes('set(')) structures.push("Set");
  if (code.includes('tuple(') || code.includes('(')) structures.push("Tuple");
  \<close>
\<close>

definition analyzeDataStructures :: "string \<Rightarrow> string list" where
  "analyzeDataStructures code =
     (if includesStr code ''list('' \<or> includesStr code ''[]'' then [''List''] else [])
     @ (if includesStr code ''dict('' \<or> includesStr code ''{}'' then [''Dictionary''] else [])
     @ (if includesStr code ''set('' then [''Set''] else [])
     @ (if includesStr code ''tuple('' \<or> includesStr code ''('' then [''Tuple''] else [])"

subsection \<open>Recursion\<close>

text \<open>
  \<^verbatim>\<open>
  const functionMatches = code.match(/def\s+(\w+)\s*\(/g);
  \<close>
  The pattern has one way to match at a given place: \<^verbatim>\<open>\s+\<close> must take all the
  white space after \<^verbatim>\<open>def\<close> (a word character follows), \<^verbatim>\<open>\w+\<close> the whole run
  of word characters (white space or the parenthesis follows), \<^verbatim>\<open>\s*\<close> all the white
  space before the parenthesis. \<open>matchDefAt s\<close> matches at the start of \<open>s\<close> and
  returns the matched text, the group and the text after the match.
\<close>

definition matchDefAt :: "string \<Rightarrow> (string \<times> string \<times> string) option" where
  "matchDefAt s =
     (if startsWith s ''def'' then
        let s1 = drop 3 s;
            ws1 = takeWhile isSpace s1; s2 = dropWhile isSpace s1;
            name = takeWhile isWord s2; s3 = dropWhile isWord s2;
            ws2 = takeWhile isSpace s3; s4 = dropWhile isSpace s3
        in if ws1 \<noteq> [] \<and> name \<noteq> [] \<and> startsWith s4 ''(''
           then Some (''def'' @ ws1 @ name @ ws2 @ ''('', name, drop 1 s4)
           else None
      else None)"

text \<open>
  The leftmost match: the text before it, the matched text, the group, the text after it.
\<close>

fun searchDef :: "string \<Rightarrow> (string \<times> string \<times> string \<times> string) option" where
  "searchDef [] = None"
| "searchDef (c # cs) =
     (case matchDefAt (c # cs) of
        Some (m, name, rest) \<Rightarrow> Some ([], m, name, rest)
      | None \<Rightarrow>
          (case searchDef cs of
             None \<Rightarrow> None
           | Some (pre, m, name, rest) \<Rightarrow> Some (c # pre, m, name, rest)))"

lemma matchDefAt_shorter: "matchDefAt s = Some (m, name, rest) \<Longrightarrow> length rest < length s"
proof -
  assume a: "matchDefAt s = Some (m, name, rest)"
  have d: "length (dropWhile P xs) \<le> length xs" for P and xs :: string
    by (rule length_dropWhile_le)
  from a have r: "rest = drop 1 (dropWhile isSpace (dropWhile isWord (dropWhile isSpace (drop 3 s))))"
    and s: "startsWith s ''def''"
    by (auto simp: matchDefAt_def Let_def split: if_splits)
  from s have "3 \<le> length s"
    by (cases s; cases "tl s"; cases "tl (tl s)") auto
  moreover have "length rest \<le> length (drop 3 s)"
    unfolding r
    by (rule order_trans [OF _ d [of isSpace]], rule order_trans [OF _ d [of isWord]],
        rule order_trans [OF _ d [of isSpace]]) simp
  ultimately show ?thesis by simp
qed

lemma searchDef_shorter: "searchDef s = Some (pre, m, name, rest) \<Longrightarrow> length rest < length s"
proof (induction s arbitrary: pre)
  case Nil
  then show ?case by simp
next
  case (Cons c cs)
  show ?case
  proof (cases "matchDefAt (c # cs)")
    case (Some t)
    with Cons.prems have "matchDefAt (c # cs) = Some (m, name, rest)"
      by (cases t) auto
    then show ?thesis by (rule matchDefAt_shorter)
  next
    case None
    with Cons.prems obtain pre' where "searchDef cs = Some (pre', m, name, rest)"
      by (auto split: option.splits)
    then have "length rest < length cs" by (rule Cons.IH)
    then show ?thesis by simp
  qed
qed

text \<open>
  With the flag \<^verbatim>\<open>g\<close>, \<^verbatim>\<open>match\<close> returns every match, each search starting where
  the match before ended, or \<^verbatim>\<open>null\<close> when there is none.
\<close>

function matchAllDef :: "string \<Rightarrow> string list" where
  "matchAllDef s =
     (case searchDef s of
        None \<Rightarrow> []
      | Some (pre, m, name, rest) \<Rightarrow> m # matchAllDef rest)"
  by pat_completeness auto
termination
  by (relation "measure length") (auto dest: searchDef_shorter)

declare matchAllDef.simps [simp del]

definition matchDef :: "string \<Rightarrow> string list option" where
  "matchDef code = (let ms = matchAllDef code in if ms = [] then None else Some ms)"

text \<open>
  \<^verbatim>\<open>match.replace(/def\s+(\w+)\s*\(/, '$1')\<close>: the first match is replaced by its group.
\<close>

definition replaceDef :: "string \<Rightarrow> string" where
  "replaceDef s =
     (case searchDef s of
        None \<Rightarrow> s
      | Some (pre, m, name, rest) \<Rightarrow> pre @ name @ rest)"

text \<open>
  \<^verbatim>\<open>
  const funcPattern = new RegExp(
    `def\\s+${funcName}\\s*\\([^)]*\\):[\\s\\S]*?(?=\\ndef|\\nclass|$)`, 'g');
  const funcMatch = code.match(funcPattern);
  \<close>
  The name is a run of word characters, so it stands for itself in the pattern. The
  lazy \<^verbatim>\<open>[\s\S]*?\<close> stops at the first place followed by a line feed and \<^verbatim>\<open>def\<close>, by a
  line feed and \<^verbatim>\<open>class\<close>, or by the end of the text (there is no flag \<^verbatim>\<open>m\<close>).
\<close>

fun lazyBody :: "string \<Rightarrow> string" where
  "lazyBody [] = []"
| "lazyBody (c # cs) =
     (if startsWith (c # cs) (CHR 0x0A # ''def'') \<or> startsWith (c # cs) (CHR 0x0A # ''class'')
      then [] else c # lazyBody cs)"

text \<open>
  The header has one way to match as well: \<^verbatim>\<open>[^)]*\<close> runs to the first closing
  parenthesis, which a colon must follow.
\<close>

definition matchFuncAt :: "string \<Rightarrow> string \<Rightarrow> string option" where
  "matchFuncAt funcName s =
     (if startsWith s ''def'' then
        let s1 = drop 3 s;
            ws1 = takeWhile isSpace s1; s2 = dropWhile isSpace s1
        in if ws1 \<noteq> [] \<and> startsWith s2 funcName then
             let s3 = drop (length funcName) s2;
                 ws2 = takeWhile isSpace s3; s4 = dropWhile isSpace s3
             in if startsWith s4 ''('' then
                  let s5 = drop 1 s4;
                      params = takeWhile (\<lambda>c. c \<noteq> CHR 0x29) s5;
                      s6 = dropWhile (\<lambda>c. c \<noteq> CHR 0x29) s5
                  in if startsWith s6 ''):''
                     then Some (''def'' @ ws1 @ funcName @ ws2 @ ''('' @ params @ ''):''
                                @ lazyBody (drop 2 s6))
                     else None
                else None
           else None
      else None)"

text \<open>\<open>funcMatch[0]\<close>, the leftmost match, when \<open>funcMatch\<close> is not \<^verbatim>\<open>null\<close>.\<close>

fun searchFunc :: "string \<Rightarrow> string \<Rightarrow> string option" where
  "searchFunc funcName [] = matchFuncAt funcName []"
| "searchFunc funcName (c # cs) =
     (case matchFuncAt funcName (c # cs) of
        Some m \<Rightarrow> Some m
      | None \<Rightarrow> searchFunc funcName cs)"

record recursion =
  hasRecursion :: bool
  type :: string

text \<open>
  \<^verbatim>\<open>
  for (const funcName of functionNames) {
    ...
    if (funcMatch && funcMatch[0].includes(funcName + '(')) {
      if (funcName.includes('fibonacci') ||
          funcMatch[0].includes(`${funcName}(n-1)`) && funcMatch[0].includes(`${funcName}(n-2)`)) {
        return { hasRecursion: true, type: "fibonacci" };
      }
      if (funcMatch[0].includes('factorial') ||
          funcMatch[0].includes(`${funcName}(n-1)`) && funcMatch[0].includes('n *')) {
        return { hasRecursion: true, type: "factorial" };
      }
      if (funcMatch[0].includes(`${funcName}(`)) {
        return { hasRecursion: true, type: "linear" };
      }
    }
  }
  return { hasRecursion: false, type: "none" };
  \<close>
\<close>

text \<open>
  One round of the loop: \<open>Some r\<close> when the round returns \<open>r\<close>, \<open>None\<close> when it
  falls through to the next name.
\<close>

definition checkFunction :: "string \<Rightarrow> string \<Rightarrow> recursion option" where
  "checkFunction code funcName =
     (case searchFunc funcName code of
        None \<Rightarrow> None
      | Some m \<Rightarrow>
          if includesStr m (funcName @ ''('') then
            if includesStr funcName ''fibonacci''
               \<or> (includesStr m (funcName @ ''(n-1)'') \<and> includesStr m (funcName @ ''(n-2)''))
            then Some \<lparr>hasRecursion = True, type = ''fibonacci''\<rparr>
            else if includesStr m ''factorial''
               \<or> (includesStr m (funcName @ ''(n-1)'') \<and> includesStr m ''n *'')
            then Some \<lparr>hasRecursion = True, type = ''factorial''\<rparr>
            else if includesStr m (funcName @ ''('')
            then Some \<lparr>hasRecursion = True, type = ''linear''\<rparr>
            else None
          else None)"

fun recursionLoop :: "string \<Rightarrow> string list \<Rightarrow> recursion" where
  "recursionLoop code [] = \<lparr>hasRecursion = False, type = ''none''\<rparr>"
| "recursionLoop code (funcName # functionNames) =
     (case checkFunction code funcName of
        Some r \<Rightarrow> r
      | None \<Rightarrow> recursionLoop code functionNames)"

definition analyzeRecursion :: "string \<Rightarrow> recursion" where
  "analyzeRecursion code =
     (case matchDef code of
        None \<Rightarrow> \<lparr>hasRecursion = False, type = ''none''\<rparr>
      | Some functionMatches \<Rightarrow> recursionLoop code (map replaceDef functionMatches))"

text \<open>The names the loop visits: none when \<^verbatim>\<open>functionMatches\<close> is \<^verbatim>\<open>null\<close>.\<close>

definition functionNames :: "string \<Rightarrow> string list" where
  "functionNames code =
     (case matchDef code of
        None \<Rightarrow> []
      | Some functionMatches \<Rightarrow> map replaceDef functionMatches)"

subsection \<open>The classifier\<close>

record report =
  complexity :: string
  description :: string
  details :: "string list"
  worstCase :: string
  bestCase :: string
  averageCase :: string

text \<open>
  The two tests on the text of \<^verbatim>\<open>analyzeComplexity\<close>:
  \<^verbatim>\<open>code.includes("sort(") || code.includes(".sort")\<close> and
  \<^verbatim>\<open>code.includes("in ") && code.includes("list")\<close>.
\<close>

definition usesSort :: "string \<Rightarrow> bool" where
  "usesSort code = (includesStr code ''sort('' \<or> includesStr code ''.sort'')"

definition usesListSearch :: "string \<Rightarrow> bool" where
  "usesListSearch code = (includesStr code ''in '' \<and> includesStr code ''list'')"

text \<open>
  The body of the \<^verbatim>\<open>try\<close> block after the three helper calls. The variables
  \<^verbatim>\<open>complexity\<close>, \<^verbatim>\<open>description\<close> and \<^verbatim>\<open>details\<close> are assigned in four steps,
  in the order of the source: recursion or loop nesting, sorting, list search, data
  structures; the primed names are the values of the variables after a step.
\<close>

definition classifyRecursionOrLoops :: "loops \<Rightarrow> recursion \<Rightarrow> string \<times> string \<times> string list" where
  "classifyRecursionOrLoops nestedLoops recursion =
     (if hasRecursion recursion then
        if type recursion = ''fibonacci'' \<or> type recursion = ''exponential'' then
          (O_2n, ''Exponential time - exponential growth with input'',
           [''Recursive function with multiple calls per recursion'',
            ''Consider using dynamic programming for optimization''])
        else if type recursion = ''linear'' then
          (O_n, ''Linear time - single recursive call'', [''Linear recursion detected''])
        else if type recursion = ''factorial'' then
          (O_nfact, ''Factorial time - extremely slow for large inputs'',
           [''Factorial algorithm detected''])
        else (O_1, ''Constant time - basic operations'', [])
      else if count nestedLoops \<ge> 3 then
        (O_n3, ''Cubic time - three nested loops'',
         [showInt (count nestedLoops) @ '' levels of nested loops detected''])
      else if count nestedLoops = 2 then
        (O_n2, ''Quadratic time - two nested loops'',
         [''Nested loops detected - quadratic growth''])
      else if count nestedLoops = 1 then
        (O_n, ''Linear time - single loop'', [''Single loop detected - linear growth''])
      else (O_1, ''Constant time - basic operations'', []))"

definition classifySort :: "string \<Rightarrow> string \<times> string \<times> string list \<Rightarrow> string \<times> string \<times> string list" where
  "classifySort code st =
     (case st of (complexity', description', details') \<Rightarrow>
        if includesStr code ''sort('' \<or> includesStr code ''.sort''
        then (O_n_log_n, ''Linearithmic time - efficient sorting'',
              details' @ [''Built-in sorting algorithm detected''])
        else (complexity', description', details'))"

definition classifySearch :: "string \<Rightarrow> string \<times> string \<times> string list \<Rightarrow> string \<times> string \<times> string list" where
  "classifySearch code st =
     (case st of (complexity', description', details') \<Rightarrow>
        if includesStr code ''in '' \<and> includesStr code ''list'' then
          if complexity' = O_1
          then (O_n, ''Linear time - list search'', details' @ [''Linear search in list detected''])
          else (complexity', description', details')
        else (complexity', description', details'))"

definition classify :: "loops \<Rightarrow> recursion \<Rightarrow> string list \<Rightarrow> string \<Rightarrow> report" where
  "classify nestedLoops recursion dataStructures code =
     (case classifySearch code (classifySort code (classifyRecursionOrLoops nestedLoops recursion)) of
        (complexity', description', details') \<Rightarrow>
          \<lparr>complexity = complexity',
           description = description',
           details = (if length dataStructures > 0
                      then details' @ [''Data structures used: '' @ join '', '' dataStructures]
                      else details'),
           worstCase = complexity',
           bestCase = (if count nestedLoops > 0 then O_1 else O_1),
           averageCase = complexity'\<rparr>)"

text \<open>The report of the \<^verbatim>\<open>catch\<close> block.\<close>

definition failureReport :: report where
  "failureReport =
     \<lparr>complexity = O_unknown,
      description = ''Unable to analyze complexity'',
      details = [''Code analysis failed''],
      worstCase = O_unknown,
      bestCase = O_unknown,
      averageCase = O_unknown\<rparr>"

text \<open>
  A thrown value. The helpers of the source are total on strings, so to say what the
  \<^verbatim>\<open>catch\<close> block does the \<^verbatim>\<open>try\<close> block is first written over helpers that may
  throw: \<open>Inl e\<close> is a throw of \<open>e\<close>, which ends the block at once. The helpers are
  called in the order of the source.
\<close>

datatype exn = Thrown string

definition tryBlock ::
  "(string \<Rightarrow> exn + loops) \<Rightarrow> (string \<Rightarrow> exn + recursion) \<Rightarrow> (string \<Rightarrow> exn + string list)
     \<Rightarrow> string \<Rightarrow> exn + report" where
  "tryBlock nestedLoopsOf recursionOf dataStructuresOf code =
     (case nestedLoopsOf code of
        Inl e \<Rightarrow> Inl e
      | Inr nestedLoops \<Rightarrow>
          (case recursionOf code of
             Inl e \<Rightarrow> Inl e
           | Inr recursion \<Rightarrow>
               (case dataStructuresOf code of
                  Inl e \<Rightarrow> Inl e
                | Inr dataStructures \<Rightarrow> Inr (classify nestedLoops recursion dataStructures code))))"

definition analyzeComplexityWith ::
  "(string \<Rightarrow> exn + loops) \<Rightarrow> (string \<Rightarrow> exn + recursion) \<Rightarrow> (string \<Rightarrow> exn + string list)
     \<Rightarrow> string \<Rightarrow> report" where
  "analyzeComplexityWith nestedLoopsOf recursionOf dataStructuresOf code =
     (case tryBlock nestedLoopsOf recursionOf dataStructuresOf code of
        Inr r \<Rightarrow> r
      | Inl error \<Rightarrow> failureReport)"

text \<open>\<^verbatim>\<open>analyzeComplexity\<close> itself, with the helpers of the source, none of which throws.\<close>

definition analyzeComplexity :: "string \<Rightarrow> report" where
  "analyzeComplexity code =
     analyzeComplexityWith (\<lambda>c. Inr (analyzeNestedLoops c)) (\<lambda>c. Inr (analyzeRecursion c))
       (\<lambda>c. Inr (analyzeDataStructures c)) code"

subsection \<open>Example inputs\<close>

text \<open>The scenario inputs of the specification and the inputs used below.\<close>

definition print_hi :: string where
  "print_hi = ''print('' @ [CHR 0x27] @ ''hi'' @ [CHR 0x27] @ '')''"

definition sort_example :: string where
  "sort_example = ''x=[1,2,3]\<newline>x.sort()''"

definition single_loop_example :: string where
  "single_loop_example = ''for i in range(5):\<newline>    print(i)''"

definition nested_example :: string where
  "nested_example = ''for a in b:\<newline>    x = 1\<newline>    for c in d:\<newline>        pass''"

definition list_search_example :: string where
  "list_search_example = ''if 3 in list(range(5)):\<newline>    print(1)''"

definition plain_function :: string where
  "plain_function = ''def f(x):\<newline>    return 1''"

definition fib_after_plain :: string where
  "fib_after_plain = ''def g(n):\<newline>    return 1\<newline>def f(n):\<newline>    return f(n-1)+f(n-2)''"

definition annotated_function :: string where
  "annotated_function = ''def f(x) -> int:\<newline>    return x''"

definition spaced_then_plain :: string where
  "spaced_then_plain = ''def f (x):\<newline>    return 1\<newline>def f(y):\<newline>    return 2''"

definition function_after_statement :: string where
  "function_after_statement = ''x = 1\<newline>def f(x):\<newline>    return 1''"

section \<open>Properties\<close>

subsection \<open>Strings\<close>

lemma startsWith_iff: "startsWith s p \<longleftrightarrow> (\<exists>r. s = p @ r)"
  by (induction s p rule: startsWith.induct) auto

lemma includesStr_iff: "includesStr s p \<longleftrightarrow> (\<exists>a b. s = a @ p @ b)"
proof (induction s)
  case Nil
  then show ?case by (auto simp: startsWith_iff)
next
  case (Cons c cs)
  show ?case
  proof
    assume "includesStr (c # cs) p"
    then consider "startsWith (c # cs) p" | "includesStr cs p" by auto
    then show "\<exists>a b. c # cs = a @ p @ b"
    proof cases
      case 1
      then obtain r where "c # cs = p @ r" by (auto simp: startsWith_iff)
      then have "c # cs = [] @ p @ r" by simp
      then show ?thesis by blast
    next
      case 2
      with Cons.IH obtain a b where "cs = a @ p @ b" by blast
      then have "c # cs = (c # a) @ p @ b" by simp
      then show ?thesis by blast
    qed
  next
    assume "\<exists>a b. c # cs = a @ p @ b"
    then obtain a b where ab: "c # cs = a @ p @ b" by blast
    show "includesStr (c # cs) p"
    proof (cases a)
      case Nil
      with ab have "startsWith (c # cs) p" by (auto simp: startsWith_iff)
      then show ?thesis by simp
    next
      case (Cons a0 a')
      with ab have "cs = a' @ p @ b" by simp
      with Cons.IH have "includesStr cs p" by blast
      then show ?thesis by simp
    qed
  qed
qed

lemma includesStr_prefix: "includesStr s (p @ q) \<Longrightarrow> includesStr s p"
  unfolding includesStr_iff by (metis append.assoc)

lemma dropWhile_snoc_keep: "\<not> P a \<Longrightarrow> dropWhile P (xs @ [a]) = dropWhile P xs @ [a]"
  by (induction xs) auto

text \<open>A trimmed line is empty or starts with a character that is not white space.\<close>

lemma trim_head: "trim s = [] \<or> (\<exists>a t. trim s = a # t \<and> \<not> isSpace a)"
proof (cases "dropWhile isSpace s")
  case Nil
  have "trim s = rev (dropWhile isSpace (rev []))" unfolding trim_def Nil ..
  then show ?thesis by simp
next
  case (Cons a t)
  then have a: "\<not> isSpace a" using hd_dropWhile [of isSpace s] by auto
  have "trim s = rev (dropWhile isSpace (rev t @ [a]))" unfolding trim_def Cons by simp
  also have "\<dots> = a # rev (dropWhile isSpace (rev t))" using a by (simp add: dropWhile_snoc_keep)
  finally show ?thesis using a by blast
qed

lemma trim_no_leading_space: "\<not> startsWith (trim s) '' '' \<or> trim s = []"
  using trim_head [of s] by (auto simp: isSpace_def)

lemma class_names_not_O_1:
  "O_n3 \<noteq> O_1" "O_n2 \<noteq> O_1" "O_n \<noteq> O_1" "O_2n \<noteq> O_1" "O_nfact \<noteq> O_1" "O_n_log_n \<noteq> O_1"
  by (simp_all add: O_1_def O_n_def O_n2_def O_n3_def O_2n_def O_nfact_def O_n_log_n_def)

subsection \<open>The growth curve\<close>

lemma generateLoop_eq:
  "generateLoop c n data = data @ map (\<lambda>k. \<lparr>x = k, y = min (operations c k) 1000\<rparr>) [n..10]"
proof (induction c n data rule: generateLoop.induct)
  case (1 c n data)
  show ?case
  proof (cases "n \<le> 10")
    case True
    then have "[n..10] = n # [n + 1..10]" by (simp add: upto_rec1)
    with True 1 show ?thesis by (subst generateLoop.simps) simp
  next
    case False
    then show ?thesis by (subst generateLoop.simps) simp
  qed
qed

lemma generateComplexityData_eq:
  "generateComplexityData c = map (\<lambda>k. \<lparr>x = k, y = min (operations c k) 1000\<rparr>) [1..10]"
  by (simp add: generateComplexityData_def generateLoop_eq)

lemma upto_1_10: "[1..10] = [1, 2, 3, 4, 5, 6, 7, 8, 9, 10 :: int]"
  by (simp add: upto_rec1)

lemma factorial_pos: "1 \<le> factorial n"
proof (induction n rule: factorial.induct)
  case (1 n)
  show ?case
  proof (cases "n \<le> 1")
    case True
    then show ?thesis by (simp add: factorial.simps)
  next
    case False
    with 1 have "1 \<le> factorial (n - 1)" by simp
    moreover from False have "1 \<le> n" by simp
    ultimately have "1 * 1 \<le> n * factorial (n - 1)" by (intro mult_mono) auto
    with False show ?thesis by (subst factorial.simps) simp
  qed
qed

lemma operations_nonneg: "1 \<le> n \<Longrightarrow> 0 \<le> operations c n"
proof -
  assume n: "1 \<le> n"
  have "0 \<le> factorial (min n 6)" using factorial_pos [of "min n 6"] by linarith
  moreover have "0 \<le> log 2 (real_of_int n)" using n by simp
  ultimately show ?thesis using n by (simp add: operations_def)
qed

lemma class_names_distinct:
  "O_n2 \<noteq> O_1" "O_n2 \<noteq> O_log_n" "O_n2 \<noteq> O_n" "O_n2 \<noteq> O_n_log_n"
  "O_2n \<noteq> O_1" "O_2n \<noteq> O_log_n" "O_2n \<noteq> O_n" "O_2n \<noteq> O_n_log_n" "O_2n \<noteq> O_n2" "O_2n \<noteq> O_n3"
  "O_nfact \<noteq> O_1" "O_nfact \<noteq> O_log_n" "O_nfact \<noteq> O_n" "O_nfact \<noteq> O_n_log_n"
  "O_nfact \<noteq> O_n2" "O_nfact \<noteq> O_n3" "O_nfact \<noteq> O_2n"
  by (simp_all add: O_1_def O_log_n_def O_n_def O_n_log_n_def O_n2_def O_n3_def O_2n_def
      O_nfact_def)

text \<open>
  Claim C6. For every class name, also one the \<^verbatim>\<open>switch\<close> does not know, the generator
  returns the ten points for \<open>n = 1, \<dots>, 10\<close> in this order, each with the value of
  \<open>operations\<close> (whose power and factorial take \<open>min n 6\<close>) capped at 1000; every value
  lies between 0 and 1000; the tenth point of the quadratic class has the value 100,
  and the exponential class has the values 2, 4, 8, 16, 32 and then 64 from \<open>n = 6\<close> on,
  so 64 and not 1024 at \<open>n = 10\<close>; the factorial class stays at 720 from \<open>n = 6\<close> on.
\<close>

theorem growth_curve_points:
  "generateComplexityData c
     = map (\<lambda>n. \<lparr>x = n, y = min (operations c n) 1000\<rparr>) [1, 2, 3, 4, 5, 6, 7, 8, 9, 10]
   \<and> (\<forall>p \<in> set (generateComplexityData c). 0 \<le> y p \<and> y p \<le> 1000)
   \<and> generateComplexityData O_n2 ! 9 = \<lparr>x = 10, y = 100\<rparr>
   \<and> generateComplexityData O_2n ! 9 = \<lparr>x = 10, y = 64\<rparr>
   \<and> map y (generateComplexityData O_2n) = [2, 4, 8, 16, 32, 64, 64, 64, 64, 64]
   \<and> map y (generateComplexityData O_nfact) = [1, 2, 6, 24, 120, 720, 720, 720, 720, 720]"
proof -
  have "generateComplexityData c
          = map (\<lambda>n. \<lparr>x = n, y = min (operations c n) 1000\<rparr>) [1, 2, 3, 4, 5, 6, 7, 8, 9, 10]"
    by (simp only: generateComplexityData_eq upto_1_10)
  moreover have "\<forall>p \<in> set (generateComplexityData c). 0 \<le> y p \<and> y p \<le> 1000"
    unfolding generateComplexityData_eq by (auto simp: operations_nonneg)
  moreover have "generateComplexityData O_n2 ! 9 = \<lparr>x = 10, y = 100\<rparr>"
    by (simp add: generateComplexityData_eq upto_1_10 operations_def class_names_distinct)
  moreover have "generateComplexityData O_2n ! 9 = \<lparr>x = 10, y = 64\<rparr>"
    by (simp add: generateComplexityData_eq upto_1_10 operations_def class_names_distinct)
  moreover have "map y (generateComplexityData O_2n) = [2, 4, 8, 16, 32, 64, 64, 64, 64, 64]"
    by (simp add: generateComplexityData_eq upto_1_10 operations_def class_names_distinct)
  moreover have "map y (generateComplexityData O_nfact)
                   = [1, 2, 6, 24, 120, 720, 720, 720, 720, 720]"
    by (simp add: generateComplexityData_eq upto_1_10 operations_def class_names_distinct
        factorial.simps)
  ultimately show ?thesis by blast
qed

text \<open>The bound, used at the cubic class, whose tenth point reaches the cap exactly.\<close>

theorem growth_curve_points_witness:
  "\<lparr>x = 10, y = 1000\<rparr> \<in> set (generateComplexityData O_n3)
   \<and> 0 \<le> y \<lparr>x = 10, y = 1000\<rparr> \<and> y \<lparr>x = 10, y = 1000\<rparr> \<le> 1000"
proof -
  have "O_n3 \<noteq> O_1" "O_n3 \<noteq> O_log_n" "O_n3 \<noteq> O_n" "O_n3 \<noteq> O_n_log_n" "O_n3 \<noteq> O_n2"
    by (simp_all add: O_1_def O_log_n_def O_n_def O_n_log_n_def O_n2_def O_n3_def)
  then have "\<lparr>x = 10, y = 1000\<rparr> \<in> set (generateComplexityData O_n3)"
    by (simp add: generateComplexityData_eq upto_1_10 operations_def)
  with growth_curve_points [of O_n3] show ?thesis by blast
qed

subsection \<open>The report\<close>

lemma classify_cases_agree:
  "worstCase (classify nl rc ds code) = complexity (classify nl rc ds code)"
  "averageCase (classify nl rc ds code) = complexity (classify nl rc ds code)"
  by (simp_all add: classify_def split: prod.splits)

text \<open>
  Claim C7. In every report the worst case and the average case are the class of the
  report: in the report of the \<^verbatim>\<open>try\<close> block, whatever the helpers return, in the
  report of the \<^verbatim>\<open>catch\<close> block, where all three are \<^verbatim>\<open>O(?)\<close>, and so in the report
  of \<^verbatim>\<open>analyzeComplexity\<close> for every text.
\<close>

theorem report_cases_agree:
  "worstCase (analyzeComplexityWith nestedLoopsOf recursionOf dataStructuresOf code)
     = complexity (analyzeComplexityWith nestedLoopsOf recursionOf dataStructuresOf code)
   \<and> averageCase (analyzeComplexityWith nestedLoopsOf recursionOf dataStructuresOf code)
     = complexity (analyzeComplexityWith nestedLoopsOf recursionOf dataStructuresOf code)
   \<and> worstCase (analyzeComplexity code) = complexity (analyzeComplexity code)
   \<and> averageCase (analyzeComplexity code) = complexity (analyzeComplexity code)
   \<and> worstCase failureReport = complexity failureReport
   \<and> averageCase failureReport = complexity failureReport"
  by (simp add: analyzeComplexity_def analyzeComplexityWith_def tryBlock_def failureReport_def
      classify_cases_agree split: sum.splits)

text \<open>
  Claim C8. The classifier returns a report and never a thrown value: when any of the
  helper calls inside the \<^verbatim>\<open>try\<close> block throws, the \<^verbatim>\<open>catch\<close> block returns the
  complete report with the class \<^verbatim>\<open>O(?)\<close> (the specification's Unknown), the
  description \<^verbatim>\<open>Unable to analyze complexity\<close> and the single detail line
  \<^verbatim>\<open>Code analysis failed\<close>.
\<close>

theorem failure_is_caught:
  assumes "nestedLoopsOf code = Inl e \<or> recursionOf code = Inl e \<or> dataStructuresOf code = Inl e"
  shows "analyzeComplexityWith nestedLoopsOf recursionOf dataStructuresOf code =
           \<lparr>complexity = ''O(?)'', description = ''Unable to analyze complexity'',
            details = [''Code analysis failed''], worstCase = ''O(?)'', bestCase = ''O(?)'',
            averageCase = ''O(?)''\<rparr>"
  using assms
  by (auto simp: analyzeComplexityWith_def tryBlock_def failureReport_def O_unknown_def
      split: sum.splits)

theorem failure_is_caught_witness:
  "((\<lambda>c. Inr (analyzeNestedLoops c)) ''x'' = Inl (Thrown ''SyntaxError'')
      \<or> (\<lambda>c. Inl (Thrown ''SyntaxError'')) ''x'' = (Inl (Thrown ''SyntaxError'') :: exn + recursion)
      \<or> (\<lambda>c. Inr (analyzeDataStructures c)) ''x'' = Inl (Thrown ''SyntaxError''))
   \<and> analyzeComplexityWith (\<lambda>c. Inr (analyzeNestedLoops c)) (\<lambda>c. Inl (Thrown ''SyntaxError''))
        (\<lambda>c. Inr (analyzeDataStructures c)) ''x'' =
        \<lparr>complexity = ''O(?)'', description = ''Unable to analyze complexity'',
         details = [''Code analysis failed''], worstCase = ''O(?)'', bestCase = ''O(?)'',
         averageCase = ''O(?)''\<rparr>"
  using failure_is_caught [of "\<lambda>c. Inr (analyzeNestedLoops c)" "''x''" "Thrown ''SyntaxError''"
      "\<lambda>c. Inl (Thrown ''SyntaxError'')" "\<lambda>c. Inr (analyzeDataStructures c)"]
  by simp

text \<open>
  Claim C3. When the text contains \<^verbatim>\<open>sort(\<close> or \<^verbatim>\<open>.sort\<close>, the class of the report is
  \<^verbatim>\<open>O(n log n)\<close>, whatever the loop analysis and the recursion analysis have returned:
  the step runs after them, and the list-search step leaves a class other than
  \<^verbatim>\<open>O(1)\<close> alone.
\<close>

theorem sort_overrides:
  assumes "includesStr code ''sort('' \<or> includesStr code ''.sort''"
  shows "complexity (classify nestedLoops recursion dataStructures code) = ''O(n log n)''
         \<and> complexity (analyzeComplexity code) = ''O(n log n)''"
  using assms
  by (simp add: analyzeComplexity_def analyzeComplexityWith_def tryBlock_def classify_def
      classifySort_def classifySearch_def O_n_log_n_def O_1_def split: prod.splits)

theorem sort_overrides_witness:
  "(includesStr sort_example ''sort('' \<or> includesStr sort_example ''.sort'')
   \<and> complexity (analyzeComplexity sort_example) = ''O(n log n)''"
proof -
  have h: "includesStr sort_example ''sort('' \<or> includesStr sort_example ''.sort''"
    by (simp add: sort_example_def)
  from h sort_overrides [OF h] show ?thesis by simp
qed

text \<open>
  Claim C9 asks for the class \<^verbatim>\<open>O(1)\<close> and an empty detail list on \<^verbatim>\<open>print('hi')\<close>.
  The class is \<^verbatim>\<open>O(1)\<close>, but the detail list is not empty. The text has no list, no
  dictionary, no set, no \<^verbatim>\<open>tuple(\<close> and no empty pair of parentheses; the tuple test
  of \<^verbatim>\<open>analyzeDataStructures\<close> looks for a single opening parenthesis, where the
  tests beside it look for the empty literals \<^verbatim>\<open>[]\<close> and \<^verbatim>\<open>{}\<close>, so the parenthesis
  of the call counts as a tuple and the report carries a detail line for it.
\<close>

theorem print_hi_report:
  "\<not> includesStr print_hi ''tuple('' \<and> \<not> includesStr print_hi ''()''
   \<and> includesStr print_hi ''(''
   \<and> analyzeDataStructures print_hi = [''Tuple'']
   \<and> complexity (analyzeComplexity print_hi) = ''O(1)''
   \<and> details (analyzeComplexity print_hi) = [''Data structures used: Tuple'']"
  by code_simp

subsection \<open>Loop nesting\<close>

text \<open>
  What one round of the loop does. A loop-start line increments the counter and
  updates the maximum. Every other line decrements the counter, down to zero: the
  test \<^verbatim>\<open>!trimmed.startsWith(' ')\<close> is made on the trimmed line, which never starts
  with a space, so it holds for indented lines as well.
\<close>

lemma nestingStep_loop_start:
  "isLoopStart line \<Longrightarrow> nestingStep line (m, c) = (max m (c + 1), c + 1)"
  by (simp add: nestingStep_def isLoopStart_def Let_def)

lemma nestingStep_other_line:
  "\<not> isLoopStart line \<Longrightarrow> 0 \<le> c \<Longrightarrow> nestingStep line (m, c) = (m, max 0 (c - 1))"
  using trim_no_leading_space [of line]
  by (auto simp: nestingStep_def isLoopStart_def Let_def)

lemma nestingStep_nonneg:
  "0 \<le> m \<Longrightarrow> 0 \<le> c \<Longrightarrow> nestingStep line (m, c) = (m', c') \<Longrightarrow> 0 \<le> m' \<and> 0 \<le> c' \<and> m \<le> m'"
  by (cases "isLoopStart line") (auto simp: nestingStep_loop_start nestingStep_other_line)

lemma nestingLoop_nonneg:
  "0 \<le> m \<Longrightarrow> 0 \<le> c \<Longrightarrow> nestingLoop lines (m, c) = (m', c') \<Longrightarrow> 0 \<le> m' \<and> 0 \<le> c' \<and> m \<le> m'"
proof (induction lines arbitrary: m c)
  case Nil
  then show ?case by simp
next
  case (Cons line lines)
  obtain m1 c1 where s: "nestingStep line (m, c) = (m1, c1)" by (cases "nestingStep line (m, c)")
  with Cons.prems have "0 \<le> m1 \<and> 0 \<le> c1 \<and> m \<le> m1" using nestingStep_nonneg by blast
  moreover from Cons.prems s have "nestingLoop lines (m1, c1) = (m', c')" by simp
  ultimately show ?case using Cons.IH [of m1 c1] by auto
qed

lemma count_nonneg: "0 \<le> count (analyzeNestedLoops code)"
  using nestingLoop_nonneg [of 0 0 "split code"]
  by (cases "nestingLoop (split code) (0, 0)") (auto simp: analyzeNestedLoops_def)

lemma nestingLoop_no_loop_start:
  "filter isLoopStart lines = [] \<Longrightarrow> 0 \<le> c \<Longrightarrow> fst (nestingLoop lines (m, c)) = m"
proof (induction lines arbitrary: c)
  case Nil
  then show ?case by simp
next
  case (Cons line lines)
  from Cons.prems have n: "\<not> isLoopStart line" and r: "filter isLoopStart lines = []"
    by (auto split: if_splits)
  from n Cons.prems(2) have "nestingStep line (m, c) = (m, max 0 (c - 1))"
    by (rule nestingStep_other_line)
  with Cons.IH [OF r, of "max 0 (c - 1)"] show ?case by simp
qed

lemma count_no_loop_start:
  "filter isLoopStart (split code) = [] \<Longrightarrow> count (analyzeNestedLoops code) = 0"
  by (simp add: analyzeNestedLoops_def nestingLoop_no_loop_start)

text \<open>
  Claim C4 says that the counter is decremented exactly on a blank line or on a line
  that is not indented. On the four lines of \<open>nested_example\<close>, a loop, an indented
  assignment, an indented inner loop and its body, the indented assignment is neither
  blank nor unindented, yet the round for it takes the counter from 1 to 0, and the
  reported depth of the two nested loops is 1.
\<close>

theorem indented_line_decrements:
  "split nested_example
     = [''for a in b:'', ''    x = 1'', ''    for c in d:'', ''        pass'']
   \<and> startsWith ''    x = 1'' '' '' \<and> trim ''    x = 1'' = ''x = 1''
   \<and> nestingStep ''    x = 1'' (1, 1) = (1, 0)
   \<and> count (analyzeNestedLoops nested_example) = 1"
  by code_simp

subsection \<open>The class from loops, and the later steps\<close>

text \<open>
  Claim C5, as stated, lets the loop depth alone decide the class when there is neither
  recursion nor sorting. At depth 0 the list-search step still applies: a text with
  \<^verbatim>\<open>in\<close> followed by a space and with \<^verbatim>\<open>list\<close> gets the class \<^verbatim>\<open>O(n)\<close>.
\<close>

theorem loops_decide_counterexample:
  "\<not> hasRecursion (analyzeRecursion list_search_example) \<and> \<not> usesSort list_search_example
   \<and> count (analyzeNestedLoops list_search_example) = 0
   \<and> complexity (analyzeComplexity list_search_example) = ''O(n)''"
  by code_simp

text \<open>
  Claim C5, amended. With no recursion reported and no sort call in the text, the depth
  is not negative, and the class is the cubic one (\<open>O_n3\<close>) for a depth of at least 3,
  the quadratic one (\<open>O_n2\<close>) for 2, \<^verbatim>\<open>O(n)\<close> for 1, and for 0 it is \<^verbatim>\<open>O(n)\<close> when
  the list-search test holds and the default \<^verbatim>\<open>O(1)\<close> otherwise.
\<close>

theorem loops_decide:
  assumes "\<not> hasRecursion (analyzeRecursion code)" and "\<not> usesSort code"
  shows "0 \<le> count (analyzeNestedLoops code)
    \<and> complexity (analyzeComplexity code) =
      (if 3 \<le> count (analyzeNestedLoops code) then O_n3
       else if count (analyzeNestedLoops code) = 2 then O_n2
       else if count (analyzeNestedLoops code) = 1 then O_n
       else if usesListSearch code then O_n
       else O_1)"
  using assms count_nonneg [of code]
  by (simp add: analyzeComplexity_def analyzeComplexityWith_def tryBlock_def classify_def
      classifyRecursionOrLoops_def classifySort_def classifySearch_def usesSort_def
      usesListSearch_def class_names_not_O_1)

theorem loops_decide_witness:
  "\<not> hasRecursion (analyzeRecursion single_loop_example) \<and> \<not> usesSort single_loop_example
   \<and> count (analyzeNestedLoops single_loop_example) = 1
   \<and> complexity (analyzeComplexity single_loop_example) = ''O(n)''"
proof -
  have h1: "\<not> hasRecursion (analyzeRecursion single_loop_example)" by code_simp
  have h2: "\<not> usesSort single_loop_example" by code_simp
  have h3: "count (analyzeNestedLoops single_loop_example) = 1" by code_simp
  from loops_decide [OF h1 h2] h1 h2 h3 show ?thesis by (simp add: O_n_def)
qed

subsection \<open>Recursion\<close>

text \<open>
  With no loop-start line, no recursion reported, no sort call and no list search the
  class is the default one.
\<close>

lemma constant_without_signals:
  assumes "filter isLoopStart (split code) = []"
    and "\<not> hasRecursion (analyzeRecursion code)"
    and "\<not> usesSort code" and "\<not> usesListSearch code"
  shows "complexity (analyzeComplexity code) = ''O(1)''"
  using assms(2-4) count_no_loop_start [OF assms(1)]
  by (auto simp: analyzeComplexity_def analyzeComplexityWith_def tryBlock_def classify_def
      classifyRecursionOrLoops_def classifySort_def classifySearch_def usesSort_def
      usesListSearch_def O_1_def)

text \<open>
  Claim C1 promises the class \<^verbatim>\<open>O(1)\<close> for a text with no loop-start line, no
  function whose body calls itself, no sort call and no list search. The text
  \<open>plain_function\<close> is such a text: its only function returns a constant. The text
  matched by the function pattern starts at \<^verbatim>\<open>def\<close>, so it contains \<^verbatim>\<open>f(\<close> from the
  header; the self-call test succeeds on it and the class is \<^verbatim>\<open>O(n)\<close>.
\<close>

theorem plain_function_is_linear:
  "split plain_function = [''def f(x):'', ''    return 1'']
   \<and> filter isLoopStart (split plain_function) = []
   \<and> \<not> includesStr ''    return 1'' ''f(''
   \<and> \<not> usesSort plain_function \<and> \<not> usesListSearch plain_function
   \<and> searchFunc ''f'' plain_function = Some plain_function
   \<and> analyzeRecursion plain_function = \<lparr>hasRecursion = True, type = ''linear''\<rparr>
   \<and> complexity (analyzeComplexity plain_function) = ''O(n)''"
  by code_simp

lemma checkFunction_Some:
  "checkFunction code g = Some r \<Longrightarrow>
     hasRecursion r \<and> (type r = ''fibonacci'' \<or> type r = ''factorial'' \<or> type r = ''linear'')"
  by (auto simp: checkFunction_def split: option.splits if_splits)

lemma checkFunction_None_iff:
  "checkFunction code g = None \<longleftrightarrow>
     (\<forall>m. searchFunc g code = Some m \<longrightarrow> \<not> includesStr m (g @ ''(''))"
  by (auto simp: checkFunction_def split: option.splits if_splits)

lemma checkFunction_fibonacci:
  assumes "searchFunc g code = Some m"
    and "includesStr m (g @ ''(n-1)'')" and "includesStr m (g @ ''(n-2)'')"
  shows "checkFunction code g = Some \<lparr>hasRecursion = True, type = ''fibonacci''\<rparr>"
proof -
  have "includesStr m (g @ ''('')"
    using assms(2) includesStr_prefix [of m "g @ ''(''" "''n-1)''"] by simp
  with assms show ?thesis by (simp add: checkFunction_def)
qed

lemma recursionLoop_skip:
  "\<forall>g \<in> set pre. checkFunction code g = None \<Longrightarrow>
     recursionLoop code (pre @ names) = recursionLoop code names"
  by (induction pre) auto

lemma recursionLoop_found:
  assumes "g \<in> set names" and "checkFunction code g \<noteq> None"
  shows "hasRecursion (recursionLoop code names)
         \<and> (type (recursionLoop code names) = ''fibonacci''
            \<or> type (recursionLoop code names) = ''factorial''
            \<or> type (recursionLoop code names) = ''linear'')"
  using assms
proof (induction names)
  case Nil
  then show ?case by simp
next
  case (Cons h names)
  show ?case
  proof (cases "checkFunction code h")
    case None
    with Cons show ?thesis by auto
  next
    case (Some r)
    then show ?thesis using checkFunction_Some [OF Some] by simp
  qed
qed

lemma analyzeRecursion_eq: "analyzeRecursion code = recursionLoop code (functionNames code)"
  by (simp add: analyzeRecursion_def functionNames_def split: option.splits)

text \<open>
  When the function with the two calls is the first name the loop visits, the analysis
  returns the type \<^verbatim>\<open>fibonacci\<close> (the exponential kind of the specification) whatever
  the name is, and the class is \<^verbatim>\<open>O(2^n)\<close> unless the text contains a sort call.
\<close>

lemma first_name_fibonacci:
  assumes "functionNames code = funcName # post"
    and "searchFunc funcName code = Some m"
    and "includesStr m (funcName @ ''(n-1)'')" and "includesStr m (funcName @ ''(n-2)'')"
  shows "analyzeRecursion code = \<lparr>hasRecursion = True, type = ''fibonacci''\<rparr>
         \<and> complexity (analyzeComplexity code)
             = (if usesSort code then ''O(n log n)'' else ''O(2^n)'')"
proof -
  have r: "analyzeRecursion code = \<lparr>hasRecursion = True, type = ''fibonacci''\<rparr>"
    using checkFunction_fibonacci [OF assms(2-4)] by (simp add: analyzeRecursion_eq assms(1))
  have "complexity (analyzeComplexity code) = (if usesSort code then O_n_log_n else O_2n)"
    by (simp add: analyzeComplexity_def analyzeComplexityWith_def tryBlock_def classify_def r
        classifyRecursionOrLoops_def classifySort_def classifySearch_def usesSort_def
        class_names_not_O_1)
  with r show ?thesis by (simp add: O_n_log_n_def O_2n_def)
qed

text \<open>
  Claim C2 promises the exponential kind and the class \<^verbatim>\<open>O(2^n)\<close> for every text with
  a function whose body calls the function with \<open>n-1\<close> and with \<open>n-2\<close>. In
  \<open>fib_after_plain\<close> the function \<open>f\<close> is such a function, the text has no sort
  call, and the function \<open>g\<close> before it returns a constant: its body has no call of
  \<open>g\<close>. The text matched for \<open>g\<close> starts at \<^verbatim>\<open>def\<close>, so it contains \<open>g(\<close> from the
  header; the loop returns at \<open>g\<close> with the type \<^verbatim>\<open>linear\<close>, \<open>f\<close> is never looked at,
  and the class is \<^verbatim>\<open>O(n)\<close>.
\<close>

theorem fibonacci_after_plain_function:
  "functionNames fib_after_plain = [''g'', ''f'']
   \<and> searchFunc ''g'' fib_after_plain = Some ''def g(n):\<newline>    return 1''
   \<and> \<not> includesStr ''\<newline>    return 1'' ''g(''
   \<and> searchFunc ''f'' fib_after_plain = Some ''def f(n):\<newline>    return f(n-1)+f(n-2)''
   \<and> includesStr ''\<newline>    return f(n-1)+f(n-2)'' ''f(n-1)''
   \<and> includesStr ''\<newline>    return f(n-1)+f(n-2)'' ''f(n-2)''
   \<and> \<not> usesSort fib_after_plain
   \<and> analyzeRecursion fib_after_plain = \<lparr>hasRecursion = True, type = ''linear''\<rparr>
   \<and> complexity (analyzeComplexity fib_after_plain) = ''O(n)''"
  by code_simp

subsection \<open>The patterns\<close>

text \<open>
  How the two patterns match: what a match of the definition pattern looks like, that
  two matches of it never overlap, so that the scan finds the name of every place where
  the pattern matches, and what the function pattern matches at a definition header.
\<close>

lemma space_not_word: "isSpace c \<Longrightarrow> \<not> isWord c"
  by (auto simp: isSpace_def isWord_def)

lemma paren_not_space: "\<not> isSpace CHR ''(''" "\<not> isWord CHR ''(''"
  by (simp_all add: isSpace_def isWord_def)

lemma d_not_space: "\<not> isSpace CHR ''d''" "isWord CHR ''d''" "isWord CHR ''e''" "isWord CHR ''f''"
  by (simp_all add: isSpace_def isWord_def)

lemma takeWhile_stop:
  "\<forall>c \<in> set xs. P c \<Longrightarrow> (ys = [] \<or> \<not> P (hd ys)) \<Longrightarrow> takeWhile P (xs @ ys) = xs"
  by (induction xs) (auto simp: takeWhile_eq_Nil_iff)

lemma dropWhile_stop:
  "\<forall>c \<in> set xs. P c \<Longrightarrow> (ys = [] \<or> \<not> P (hd ys)) \<Longrightarrow> dropWhile P (xs @ ys) = ys"
  by (induction xs) (auto simp: dropWhile_eq_self_iff)

lemma matchDefAt_intro:
  assumes "ws1 \<noteq> []" "\<forall>c \<in> set ws1. isSpace c" "name \<noteq> []" "\<forall>c \<in> set name. isWord c"
    "\<forall>c \<in> set ws2. isSpace c"
  shows "matchDefAt (''def'' @ ws1 @ name @ ws2 @ ''('' @ rest)
           = Some (''def'' @ ws1 @ name @ ws2 @ ''('', name, rest)"
proof -
  define s4 where "s4 = CHR ''('' # rest"
  define s3 where "s3 = ws2 @ s4"
  define s2 where "s2 = name @ s3"
  define s1 where "s1 = ws1 @ s2"
  have n: "\<not> isSpace (hd s2)"
    unfolding s2_def using assms(3,4) space_not_word by (cases name) auto
  have t1: "takeWhile isSpace s1 = ws1" and d1: "dropWhile isSpace s1 = s2"
    unfolding s1_def using assms(2) n by (blast intro: takeWhile_stop dropWhile_stop)+
  have w: "\<not> isWord (hd s3)"
    unfolding s3_def s4_def using assms(5) space_not_word paren_not_space by (cases ws2) auto
  have t2: "takeWhile isWord s2 = name" and d2: "dropWhile isWord s2 = s3"
    unfolding s2_def using assms(4) w by (blast intro: takeWhile_stop dropWhile_stop)+
  have p: "\<not> isSpace (hd s4)" unfolding s4_def using paren_not_space by simp
  have t3: "takeWhile isSpace s3 = ws2" and d3: "dropWhile isSpace s3 = s4"
    unfolding s3_def using assms(5) p by (blast intro: takeWhile_stop dropWhile_stop)+
  have "matchDefAt (''def'' @ s1) = Some (''def'' @ ws1 @ name @ ws2 @ ''('', name, rest)"
    using assms(1,3) by (simp add: matchDefAt_def Let_def t1 d1 t2 d2 t3 d3) (simp add: s4_def)
  then show ?thesis by (simp add: s1_def s2_def s3_def s4_def)
qed

lemma matchDefAt_elim:
  assumes "matchDefAt s = Some (m, name, rest)"
  shows "\<exists>ws1 ws2. s = m @ rest \<and> m = ''def'' @ ws1 @ name @ ws2 @ ''(''
      \<and> ws1 \<noteq> [] \<and> (\<forall>c \<in> set ws1. isSpace c) \<and> name \<noteq> [] \<and> (\<forall>c \<in> set name. isWord c)
      \<and> (\<forall>c \<in> set ws2. isSpace c)"
proof -
  define s1 where "s1 = drop 3 s"
  define ws1 where "ws1 = takeWhile isSpace s1"
  define s2 where "s2 = dropWhile isSpace s1"
  define nm where "nm = takeWhile isWord s2"
  define s3 where "s3 = dropWhile isWord s2"
  define ws2 where "ws2 = takeWhile isSpace s3"
  define s4 where "s4 = dropWhile isSpace s3"
  have eq: "matchDefAt s =
      (if startsWith s ''def'' then
         if ws1 \<noteq> [] \<and> nm \<noteq> [] \<and> startsWith s4 ''(''
         then Some (''def'' @ ws1 @ nm @ ws2 @ ''('', nm, drop 1 s4) else None
       else None)"
    by (simp add: matchDefAt_def Let_def s1_def ws1_def s2_def nm_def s3_def ws2_def s4_def)
  from assms have sw: "startsWith s ''def''" and c: "ws1 \<noteq> []" "nm \<noteq> []" "startsWith s4 ''(''"
    and r: "m = ''def'' @ ws1 @ nm @ ws2 @ ''(''" "name = nm" "rest = drop 1 s4"
    unfolding eq by (auto split: if_splits)
  from sw have e1: "s = ''def'' @ s1" unfolding s1_def by (auto simp: startsWith_iff)
  have e2: "s1 = ws1 @ s2" unfolding ws1_def s2_def by simp
  have e3: "s2 = nm @ s3" unfolding nm_def s3_def by simp
  have e4: "s3 = ws2 @ s4" unfolding ws2_def s4_def by simp
  from c(3) have "s4 = ''('' @ drop 1 s4" by (auto simp: startsWith_iff)
  then have e5: "s4 = ''('' @ rest" unfolding r(3) .
  have "s = ''def'' @ ws1 @ nm @ ws2 @ ''('' @ rest"
    by (subst e1, subst e2, subst e3, subst e4, subst e5) (rule refl)
  then have "s = m @ rest" unfolding r(1) by simp
  moreover have "\<forall>c \<in> set ws1. isSpace c" unfolding ws1_def by (auto dest: set_takeWhileD)
  moreover have "\<forall>c \<in> set nm. isWord c" unfolding nm_def by (auto dest: set_takeWhileD)
  moreover have "\<forall>c \<in> set ws2. isSpace c" unfolding ws2_def by (auto dest: set_takeWhileD)
  ultimately show ?thesis using c r by blast
qed


lemma matchDefAt_not_def: "\<not> startsWith s ''def'' \<Longrightarrow> matchDefAt s = None"
  by (simp add: matchDefAt_def)

lemma matchDefAt_no_space: "takeWhile isSpace r = [] \<Longrightarrow> matchDefAt (''def'' @ r) = None"
  by (simp add: matchDefAt_def Let_def)

lemma matchDefAt_no_name:
  "takeWhile isWord (dropWhile isSpace r) = [] \<Longrightarrow> matchDefAt (''def'' @ r) = None"
  by (simp add: matchDefAt_def Let_def)

lemma matchDefAt_space_first:
  assumes "u \<noteq> []" "\<forall>c \<in> set u. isSpace c"
  shows "matchDefAt (u @ t) = None"
proof -
  from assms obtain c u' where u: "u = c # u'" and c: "isSpace c" by (cases u) auto
  then have "c \<noteq> CHR ''d''" using d_not_space by auto
  then show ?thesis unfolding u by (simp add: matchDefAt_not_def)
qed

lemma matchDefAt_paren_first: "matchDefAt (''('' @ t) = None"
  by (simp add: matchDefAt_not_def)

lemma takeWhile_def: "takeWhile isWord (''def'' @ r) = ''def'' @ takeWhile isWord r"
  using d_not_space by simp

lemma matchDefAt_word_first:
  assumes "\<forall>c \<in> set w. isWord c" "\<forall>c \<in> set ws2. isSpace c"
  shows "matchDefAt (w @ ws2 @ ''('' @ rest) = None"
proof (cases "startsWith (w @ ws2 @ ''('' @ rest) ''def''")
  case False
  then show ?thesis by (rule matchDefAt_not_def)
next
  case True
  then obtain r where r: "w @ ws2 @ ''('' @ rest = ''def'' @ r" by (auto simp: startsWith_iff)
  have nw: "\<not> isWord (hd (ws2 @ ''('' @ rest))"
    using assms(2) space_not_word paren_not_space by (cases ws2) auto
  have "takeWhile isWord (w @ ws2 @ ''('' @ rest) = w"
    using assms(1) nw by (blast intro: takeWhile_stop)
  then have w: "w = ''def'' @ takeWhile isWord r" unfolding r takeWhile_def by simp
  define w' where "w' = takeWhile isWord r"
  have r': "r = w' @ ws2 @ ''('' @ rest" using r unfolding w w'_def by simp
  have ww: "\<forall>c \<in> set w'. isWord c" unfolding w'_def by (auto dest: set_takeWhileD)
  show ?thesis
  proof (cases w')
    case Nil
    have "dropWhile isSpace (ws2 @ (''('' @ rest)) = ''('' @ rest"
      using assms(2) paren_not_space by (intro dropWhile_stop) auto
    then have "takeWhile isWord (dropWhile isSpace r) = []"
      unfolding r' Nil using paren_not_space by simp
    then show ?thesis unfolding r by (rule matchDefAt_no_name)
  next
    case (Cons c cs)
    with ww have "\<not> isSpace c" using space_not_word by auto
    then have "takeWhile isSpace r = []" unfolding r' Cons by simp
    then show ?thesis unfolding r by (rule matchDefAt_no_space)
  qed
qed

lemma matchDefAt_inside:
  assumes "matchDefAt s = Some (m, name, rest)" and "0 < k" and "k < length m"
  shows "matchDefAt (drop k s) = None"
proof -
  from matchDefAt_elim [OF assms(1)] obtain ws1 ws2 where
    s: "s = m @ rest" and m: "m = ''def'' @ ws1 @ name @ ws2 @ ''(''"
    and ws1: "\<forall>c \<in> set ws1. isSpace c" and nm: "\<forall>c \<in> set name. isWord c"
    and ws2: "\<forall>c \<in> set ws2. isSpace c"
    by blast
  define t3 where "t3 = ''('' @ rest"
  define t2 where "t2 = ws2 @ t3"
  define t1 where "t1 = name @ t2"
  define t0 where "t0 = ws1 @ t1"
  have s': "s = ''def'' @ t0" unfolding s m t0_def t1_def t2_def t3_def by simp
  have len: "k < 3 + length ws1 + length name + length ws2 + 1" using assms(3) unfolding m by simp
  consider "k = 1" | "k = 2" | "3 \<le> k" using assms(2) by linarith
  then show ?thesis
  proof cases
    case 1
    then show ?thesis unfolding s' by (simp add: matchDefAt_not_def)
  next
    case 2
    then have "drop k s = CHR ''f'' # t0" unfolding s' by (simp add: numeral_2_eq_2)
    then show ?thesis by (simp add: matchDefAt_not_def)
  next
    case 3
    define j where "j = k - 3"
    have k: "k = Suc (Suc (Suc j))" using 3 unfolding j_def by simp
    have d0: "drop k s = drop j t0" unfolding s' k by simp
    have jl: "j < length ws1 + length name + length ws2 + 1" using len k by simp
    show ?thesis
    proof (cases "j < length ws1")
      case True
      then have "drop j t0 = drop j ws1 @ t1" unfolding t0_def by simp
      moreover have "drop j ws1 \<noteq> []" using True by simp
      moreover have "\<forall>c \<in> set (drop j ws1). isSpace c" using ws1 by (auto dest: in_set_dropD)
      ultimately show ?thesis unfolding d0 by (simp add: matchDefAt_space_first)
    next
      case False
      define j1 where "j1 = j - length ws1"
      have d1: "drop j t0 = drop j1 t1" unfolding t0_def j1_def using False by simp
      have j1l: "j1 < length name + length ws2 + 1" using jl False unfolding j1_def by simp
      show ?thesis
      proof (cases "j1 < length name")
        case True
        then have "drop j1 t1 = drop j1 name @ ws2 @ ''('' @ rest"
          unfolding t1_def t2_def t3_def by simp
        moreover have "\<forall>c \<in> set (drop j1 name). isWord c" using nm by (auto dest: in_set_dropD)
        ultimately show ?thesis unfolding d0 d1 using ws2 by (simp only: matchDefAt_word_first)
      next
        case False
        define j2 where "j2 = j1 - length name"
        have d2: "drop j1 t1 = drop j2 t2" unfolding t1_def j2_def using False by simp
        have j2l: "j2 < length ws2 + 1" using j1l False unfolding j2_def by simp
        show ?thesis
        proof (cases "j2 < length ws2")
          case True
          then have "drop j2 t2 = drop j2 ws2 @ t3" unfolding t2_def by simp
          moreover have "drop j2 ws2 \<noteq> []" using True by simp
          moreover have "\<forall>c \<in> set (drop j2 ws2). isSpace c" using ws2 by (auto dest: in_set_dropD)
          ultimately show ?thesis unfolding d0 d1 d2 by (simp add: matchDefAt_space_first)
        next
          case False
          with j2l have "j2 = length ws2" by simp
          then have "drop j2 t2 = ''('' @ rest" unfolding t2_def t3_def by simp
          then show ?thesis unfolding d0 d1 d2 by (simp only: matchDefAt_paren_first)
        qed
      qed
    qed
  qed
qed


lemma matchDefAt_Nil: "matchDefAt [] = None"
  by (simp add: matchDefAt_def)

lemma searchDef_Some:
  "searchDef s = Some (pre, m, name, rest) \<Longrightarrow>
     s = pre @ m @ rest \<and> matchDefAt (m @ rest) = Some (m, name, rest)
     \<and> (\<forall>j < length pre. matchDefAt (drop j s) = None)"
proof (induction s arbitrary: pre)
  case Nil
  then show ?case by simp
next
  case (Cons c cs)
  show ?case
  proof (cases "matchDefAt (c # cs)")
    case None
    with Cons.prems obtain pre' where p: "pre = c # pre'" "searchDef cs = Some (pre', m, name, rest)"
      by (auto split: option.splits)
    from Cons.IH [OF p(2)] have ih: "cs = pre' @ m @ rest"
      "matchDefAt (m @ rest) = Some (m, name, rest)"
      "\<forall>j < length pre'. matchDefAt (drop j cs) = None" by auto
    have "matchDefAt (drop j (c # cs)) = None" if "j < length pre" for j
    proof (cases j)
      case 0
      with None show ?thesis by simp
    next
      case (Suc j')
      with that p(1) ih(3) show ?thesis by simp
    qed
    with ih p(1) show ?thesis by simp
  next
    case (Some t)
    with Cons.prems have t: "matchDefAt (c # cs) = Some (m, name, rest)" "pre = []"
      by (cases t; auto)+
    from matchDefAt_elim [OF t(1)] have "c # cs = m @ rest" by blast
    with t show ?thesis by simp
  qed
qed

lemma searchDef_None: "searchDef s = None \<Longrightarrow> matchDefAt (drop i s) = None"
proof (induction s arbitrary: i)
  case Nil
  then show ?case by (simp add: matchDefAt_Nil)
next
  case (Cons c cs)
  from Cons.prems have n: "matchDefAt (c # cs) = None" "searchDef cs = None"
    by (auto split: option.splits)
  show ?case
  proof (cases i)
    case 0
    with n show ?thesis by simp
  next
    case (Suc i')
    with Cons.IH [OF n(2)] show ?thesis by simp
  qed
qed

lemma replaceDef_match:
  assumes "matchDefAt s = Some (m, name, rest)"
  shows "replaceDef m = name"
proof -
  from matchDefAt_elim [OF assms] obtain ws1 ws2 where
    m: "m = ''def'' @ ws1 @ name @ ws2 @ ''(''"
    and c: "ws1 \<noteq> []" "\<forall>c \<in> set ws1. isSpace c" "name \<noteq> []" "\<forall>c \<in> set name. isWord c"
      "\<forall>c \<in> set ws2. isSpace c"
    by blast
  have "matchDefAt (''def'' @ ws1 @ name @ ws2 @ ''('' @ []) = Some (m, name, [])"
    unfolding m by (rule matchDefAt_intro [OF c])
  then have mm: "matchDefAt m = Some (m, name, [])" unfolding m by simp
  obtain c0 cs where "m = c0 # cs" unfolding m by simp
  with mm have "searchDef m = Some ([], m, name, [])" by simp
  then show ?thesis by (simp add: replaceDef_def)
qed

lemma functionNames_eq: "functionNames code = map replaceDef (matchAllDef code)"
  by (simp add: functionNames_def matchDef_def Let_def)

lemma match_is_scanned:
  "matchDefAt (drop i s) = Some (m', name', rest') \<Longrightarrow> name' \<in> set (functionNames s)"
proof (induction "length s" arbitrary: s i rule: less_induct)
  case less
  have "searchDef s \<noteq> None"
  proof
    assume "searchDef s = None"
    then have "matchDefAt (drop i s) = None" by (rule searchDef_None)
    with less.prems show False by simp
  qed
  then obtain x where "searchDef s = Some x" by blast
  then obtain pre m name rest where sd: "searchDef s = Some (pre, m, name, rest)"
    by (cases x) auto
  from searchDef_Some [OF sd] have s: "s = pre @ m @ rest"
    and mm: "matchDefAt (m @ rest) = Some (m, name, rest)"
    and first: "\<forall>j < length pre. matchDefAt (drop j s) = None" by auto
  have all: "matchAllDef s = m # matchAllDef rest"
    by (subst matchAllDef.simps) (simp add: sd)
  from first less.prems have ge: "length pre \<le> i" by (cases "i < length pre") auto
  define k where "k = i - length pre"
  have dk: "drop i s = drop k (m @ rest)" unfolding k_def s using ge by simp
  show ?case
  proof (cases "k = 0")
    case True
    with dk less.prems mm have "name' = name" by simp
    moreover have "replaceDef m = name" using mm by (rule replaceDef_match)
    ultimately show ?thesis by (simp add: functionNames_eq all)
  next
    case False
    have "\<not> k < length m"
    proof
      assume "k < length m"
      with False mm have "matchDefAt (drop k (m @ rest)) = None"
        by (intro matchDefAt_inside) auto
      with dk less.prems show False by simp
    qed
    then have "drop i s = drop (k - length m) rest" unfolding dk by simp
    with less.prems have "matchDefAt (drop (k - length m) rest) = Some (m', name', rest')" by simp
    moreover have "length rest < length s" using sd by (rule searchDef_shorter)
    ultimately have "name' \<in> set (functionNames rest)" by (rule less.hyps [rotated])
    then show ?thesis by (simp add: functionNames_eq all)
  qed
qed

lemma matchFuncAt_intro:
  assumes "ws \<noteq> []" "\<forall>c \<in> set ws. isSpace c" "name \<noteq> []" "\<forall>c \<in> set name. isWord c"
    "CHR 0x29 \<notin> set params"
  shows "matchFuncAt name (''def'' @ ws @ name @ ''('' @ params @ ''):'' @ body)
           = Some (''def'' @ ws @ name @ ''('' @ params @ ''):'' @ lazyBody body)"
proof -
  define s6 where "s6 = ''):'' @ body"
  define s5 where "s5 = params @ s6"
  define s4 where "s4 = ''('' @ s5"
  define s2 where "s2 = name @ s4"
  define s1 where "s1 = ws @ s2"
  have n: "\<not> isSpace (hd s2)"
    unfolding s2_def using assms(3,4) space_not_word by (cases name) auto
  have t1: "takeWhile isSpace s1 = ws" and d1: "dropWhile isSpace s1 = s2"
    unfolding s1_def using assms(2) n by (blast intro: takeWhile_stop dropWhile_stop)+
  have sw: "startsWith s2 name" unfolding s2_def by (simp add: startsWith_iff)
  have d2: "drop (length name) s2 = s4" unfolding s2_def by simp
  have t3: "takeWhile isSpace s4 = []" and d3: "dropWhile isSpace s4 = s4"
    unfolding s4_def using paren_not_space by simp_all
  have sp: "startsWith s4 ''(''" and d4: "drop (Suc 0) s4 = s5" unfolding s4_def by simp_all
  have h: "\<not> (hd s6 \<noteq> CHR 0x29)" unfolding s6_def by simp
  have t5: "takeWhile (\<lambda>c. c \<noteq> CHR 0x29) s5 = params"
    and d5: "dropWhile (\<lambda>c. c \<noteq> CHR 0x29) s5 = s6"
    unfolding s5_def using assms(5) h by (blast intro: takeWhile_stop dropWhile_stop)+
  have s6: "startsWith s6 ''):''" and d6: "drop 2 s6 = body" unfolding s6_def by simp_all
  have "matchFuncAt name (''def'' @ s1)
          = Some (''def'' @ ws @ name @ [] @ ''('' @ params @ ''):'' @ lazyBody body)"
    using assms(1)
    by (simp add: matchFuncAt_def Let_def t1 d1 sw d2 t3 d3 sp d4 t5 d5 s6 d6)
  then show ?thesis by (simp add: s1_def s2_def s4_def s5_def s6_def)
qed

lemma searchFunc_here: "matchFuncAt name t = Some m \<Longrightarrow> searchFunc name t = Some m"
  by (cases t) auto

lemma searchFunc_skip:
  "\<forall>j < length pre. matchFuncAt name (drop j (pre @ t)) = None \<Longrightarrow>
     searchFunc name (pre @ t) = searchFunc name t"
proof (induction pre)
  case Nil
  then show ?case by simp
next
  case (Cons c pre)
  from Cons.prems have "matchFuncAt name (drop 0 ((c # pre) @ t)) = None" by blast
  then have h: "matchFuncAt name (c # pre @ t) = None" by simp
  have "matchFuncAt name (drop j (pre @ t)) = None" if "j < length pre" for j
    using Cons.prems [rule_format, of "Suc j"] that by simp
  then have "searchFunc name (pre @ t) = searchFunc name t" using Cons.IH by blast
  with h show ?case by simp
qed

text \<open>
  Claim C10, as stated, fails for a definition the function pattern does not match,
  such as one with a return annotation between the parenthesis and the colon, and
  for a name whose leftmost definition is written with a space before the
  parenthesis: the loop sees the same leftmost text at every round for that name.
\<close>

theorem header_counts_as_call_counterexample:
  "functionNames annotated_function = [''f'']
   \<and> analyzeRecursion annotated_function = \<lparr>hasRecursion = False, type = ''none''\<rparr>
   \<and> functionNames spaced_then_plain = [''f'', ''f'']
   \<and> searchFunc ''f'' spaced_then_plain = Some ''def f (x):\<newline>    return 1''
   \<and> analyzeRecursion spaced_then_plain = \<lparr>hasRecursion = False, type = ''none''\<rparr>"
  by code_simp

text \<open>
  Claim C10, amended. Let the text contain a definition header: \<^verbatim>\<open>def\<close>, white space,
  a name of word characters followed at once by an opening parenthesis, parameters
  without a closing parenthesis, and then a closing parenthesis and a colon. If no
  earlier place of the text matches the function pattern for this name, the recursion
  analysis reports recursion, of type \<^verbatim>\<open>fibonacci\<close>, \<^verbatim>\<open>factorial\<close> or \<^verbatim>\<open>linear\<close>,
  whatever the body is: the matched text starts with the header, which contains the
  name followed by the parenthesis.
\<close>

theorem header_counts_as_call:
  assumes "code = pre @ ''def'' @ ws @ name @ ''('' @ params @ ''):'' @ body"
    and "ws \<noteq> []" and "\<forall>c \<in> set ws. isSpace c"
    and "name \<noteq> []" and "\<forall>c \<in> set name. isWord c"
    and "CHR 0x29 \<notin> set params"
    and "\<forall>j < length pre. matchFuncAt name (drop j code) = None"
  shows "hasRecursion (analyzeRecursion code)
         \<and> (type (analyzeRecursion code) = ''fibonacci''
            \<or> type (analyzeRecursion code) = ''factorial''
            \<or> type (analyzeRecursion code) = ''linear'')"
proof -
  define header where "header = ''def'' @ ws @ name @ ''('' @ params @ ''):''"
  define t where "t = ''def'' @ ws @ name @ ''('' @ params @ ''):'' @ body"
  have code: "code = pre @ t" unfolding t_def by (rule assms(1))
  have "matchDefAt (''def'' @ ws @ name @ [] @ ''('' @ (params @ ''):'' @ body))
          = Some (''def'' @ ws @ name @ [] @ ''('', name, params @ ''):'' @ body)"
    using assms(2-5) by (intro matchDefAt_intro) auto
  then have "matchDefAt (drop (length pre) code)
          = Some (''def'' @ ws @ name @ [] @ ''('', name, params @ ''):'' @ body)"
    unfolding code t_def by simp
  then have names: "name \<in> set (functionNames code)" by (rule match_is_scanned)
  have "matchFuncAt name t = Some (header @ lazyBody body)"
    unfolding t_def header_def using matchFuncAt_intro [OF assms(2-6)] by simp
  then have "searchFunc name t = Some (header @ lazyBody body)" by (rule searchFunc_here)
  moreover have "searchFunc name (pre @ t) = searchFunc name t"
    using assms(7) unfolding code by (rule searchFunc_skip)
  ultimately have sf: "searchFunc name code = Some (header @ lazyBody body)"
    unfolding code by simp
  have "header @ lazyBody body = (''def'' @ ws) @ (name @ ''('') @ (params @ ''):'' @ lazyBody body)"
    unfolding header_def by simp
  then have "includesStr (header @ lazyBody body) (name @ ''('')"
    unfolding includesStr_iff by blast
  with sf have "checkFunction code name \<noteq> None" by (simp add: checkFunction_None_iff)
  with names show ?thesis unfolding analyzeRecursion_eq by (rule recursionLoop_found)
qed

text \<open>
  In \<open>function_after_statement\<close> the header comes after a statement, and the body
  has no call.
\<close>

theorem header_counts_as_call_witness:
  "function_after_statement
     = ''x = 1\<newline>'' @ ''def'' @ '' '' @ ''f'' @ ''('' @ ''x'' @ ''):'' @ ''\<newline>    return 1''
   \<and> isSpace CHR '' '' \<and> isWord CHR ''f'' \<and> CHR 0x29 \<notin> set ''x''
   \<and> map (\<lambda>j. matchFuncAt ''f'' (drop j function_after_statement)) [0..<length ''x = 1\<newline>'']
       = replicate 6 None
   \<and> \<not> includesStr ''\<newline>    return 1'' ''f(''
   \<and> hasRecursion (analyzeRecursion function_after_statement)
   \<and> (type (analyzeRecursion function_after_statement) = ''fibonacci''
      \<or> type (analyzeRecursion function_after_statement) = ''factorial''
      \<or> type (analyzeRecursion function_after_statement) = ''linear'')"
proof -
  have h1: "function_after_statement
      = ''x = 1\<newline>'' @ ''def'' @ '' '' @ ''f'' @ ''('' @ ''x'' @ ''):'' @ ''\<newline>    return 1''"
    by (simp add: function_after_statement_def)
  have h2: "'' '' \<noteq> []" and h4: "''f'' \<noteq> []" by simp_all
  have sp: "isSpace CHR '' ''" by (simp add: isSpace_def)
  then have h3: "\<forall>c \<in> set '' ''. isSpace c" by simp
  have wd: "isWord CHR ''f''" by (simp add: isWord_def)
  then have h5: "\<forall>c \<in> set ''f''. isWord c" by simp
  have h6: "CHR 0x29 \<notin> set ''x''" by simp
  have len: "length ''x = 1\<newline>'' = 6" by simp
  have none: "map (\<lambda>j. matchFuncAt ''f'' (drop j function_after_statement)) [0..<6]
                = replicate 6 None"
    by code_simp
  have h7: "\<forall>j < length ''x = 1\<newline>''.
              matchFuncAt ''f'' (drop j function_after_statement) = None"
  proof (intro allI impI)
    fix j :: nat
    assume "j < length ''x = 1\<newline>''"
    then have j: "j < 6" by simp
    then have "map (\<lambda>j. matchFuncAt ''f'' (drop j function_after_statement)) [0..<6] ! j
                 = matchFuncAt ''f'' (drop j function_after_statement)"
      by (simp del: upt_Suc)
    moreover have "replicate 6 None ! j = (None :: string option)" using j by simp
    ultimately show "matchFuncAt ''f'' (drop j function_after_statement) = None"
      unfolding none by simp
  qed
  have h8: "\<not> includesStr ''\<newline>    return 1'' ''f(''" by code_simp
  from header_counts_as_call [OF h1 h2 h3 h4 h5 h6 h7]
  have c: "hasRecursion (analyzeRecursion function_after_statement)
      \<and> (type (analyzeRecursion function_after_statement) = ''fibonacci''
         \<or> type (analyzeRecursion function_after_statement) = ''factorial''
         \<or> type (analyzeRecursion function_after_statement) = ''linear'')" .
  from h1 sp wd h6 none h8 c show ?thesis unfolding len by blast
qed

end
